theory Spec2Isabelle
  imports Complex_Main "HOL-Library.AList"
begin

section \<open>Messages exchanged with the agents (protocols/a2a\_protocol.py)\<close>

text \<open>
  \<open>MessageResponse\<close> is the pydantic model of the same name. Payloads
  (\<open>Dict[str, Any]\<close>) are opaque to the orchestrator and stay a type parameter
  \<open>'c\<close>. Timestamps are points of a logical clock.
\<close>

record 'c MessageResponse =
  response_id :: string
  original_message_id :: string
  sender :: string
  content :: 'c
  success :: bool
  timestamp :: nat
  error_message :: "string option"

text \<open>
  What one awaited call \<open>a2a_protocol.send_message(..., wait_for_response=True)\<close>
  can do to its caller: raise an \<open>Exception\<close> (with its text), raise
  \<open>asyncio.CancelledError\<close>, which is not an \<open>Exception\<close> (with the exception
  object, which \<open>gather\<close> then hands back as if it were the task's value), or return
  an optional response.
\<close>

datatype 'c reply = Raises string | Raises_cancelled 'c | Returns "'c MessageResponse option"

text \<open>
  The message bus and the agents behind it are external to the orchestrator. They are
  a parameter of the model: the reply to the call issued in wave \<open>w\<close> at position
  \<open>p\<close> of that wave, given sender, receiver, message type and content.
\<close>

type_synonym 'c a2a = "nat \<Rightarrow> nat \<Rightarrow> string \<Rightarrow> string \<Rightarrow> string \<Rightarrow> 'c \<Rightarrow> 'c reply"

section \<open>Workflow data model (operations/workflow\_orchestrator.py)\<close>

datatype WorkflowStatus = PENDING | RUNNING | PAUSED | COMPLETED | FAILED | CANCELLED

fun status_value :: "WorkflowStatus \<Rightarrow> string" where
  "status_value PENDING = ''pending''"
| "status_value RUNNING = ''running''"
| "status_value PAUSED = ''paused''"
| "status_value COMPLETED = ''completed''"
| "status_value FAILED = ''failed''"
| "status_value CANCELLED = ''cancelled''"

record 'c WorkflowStep =
  step_id :: string
  agent_name :: string
  task :: 'c
  dependencies :: "string list"
  status :: WorkflowStatus
  result :: "'c option"
  error :: "string option"
  started_at :: "nat option"
  completed_at :: "nat option"

text \<open>The constructor \<open>WorkflowStep.__init__\<close>.\<close>

definition new_step :: "string \<Rightarrow> string \<Rightarrow> 'c \<Rightarrow> string list \<Rightarrow> 'c WorkflowStep" where
  "new_step sid agent t deps =
     \<lparr>step_id = sid, agent_name = agent, task = t, dependencies = deps,
      status = PENDING, result = None, error = None,
      started_at = None, completed_at = None\<rparr>"

text \<open>
  A workflow is the dictionary built by \<open>create_video_production_workflow\<close>. Its
  \<open>steps\<close> and \<open>results\<close> dictionaries keep insertion order, so they are
  association lists; \<open>AList.update\<close> overwrites in place or appends, as a Python
  dictionary assignment does.
\<close>

record 'c Workflow =
  workflow_id :: string
  session_id :: string
  topic :: string
  wf_status :: WorkflowStatus
  steps :: "(string \<times> 'c WorkflowStep) list"
  created_at :: nat
  current_step :: "string option"
  results :: "(string \<times> 'c) list"

text \<open>The lines the orchestrator writes to its logger, one constructor per call site.\<close>

datatype log_record =
    Created_workflow string string
  | Starting_workflow_execution string
  | No_ready_steps_found "string list"
  | Executing_step string string
  | Step_failed string string
  | Step_completed_with_status string WorkflowStatus
  | Workflow_failed_due_to_steps "string list"
  | Workflow_completed_successfully string
  | Workflow_paused string
  | Workflow_resumed string
  | Workflow_cancelled string

text \<open>
  The orchestrator object: the registry of workflows, the logger's output, and the
  tasks handed to the event loop by \<open>asyncio.create_task\<close> (each the workflow id
  of a scheduled \<open>execute_workflow\<close>).
\<close>

record 'c WorkflowOrchestrator =
  active_workflows :: "string \<rightharpoonup> 'c Workflow"
  logger :: "log_record list"
  created_tasks :: "string list"

datatype exn = ValueError string

subsection \<open>The production template\<close>

type_synonym payload = "(string \<times> string) list"

definition create_production_steps :: "string \<Rightarrow> (string \<times> payload WorkflowStep) list" where
  "create_production_steps tp =
    [(''research_trends'',
        new_step ''research_trends'' ''researcher_trends''
          [(''topic'', tp), (''research_type'', ''trends'')] []),
     (''research_facts'',
        new_step ''research_facts'' ''researcher_facts''
          [(''topic'', tp), (''research_type'', ''facts'')] []),
     (''research_competition'',
        new_step ''research_competition'' ''researcher_competition''
          [(''topic'', tp), (''research_type'', ''competition'')] []),
     (''script_writing'',
        new_step ''script_writing'' ''script_writer'' [(''topic'', tp)]
          [''research_trends'', ''research_facts'', ''research_competition'']),
     (''voiceover_production'',
        new_step ''voiceover_production'' ''voice_synthesizer'' [] [''script_writing'']),
     (''visual_production'',
        new_step ''visual_production'' ''video_editor'' [] [''script_writing'']),
     (''thumbnail_creation'',
        new_step ''thumbnail_creation'' ''thumbnail_generator'' [] [''script_writing'']),
     (''quality_validation'',
        new_step ''quality_validation'' ''quality_validator'' []
          [''voiceover_production'', ''visual_production'', ''thumbnail_creation'']),
     (''final_assembly'',
        new_step ''final_assembly'' ''video_assembler'' [] [''quality_validation''])]"

definition create_video_production_workflow ::
  "nat \<Rightarrow> string \<Rightarrow> string \<Rightarrow> payload WorkflowOrchestrator
     \<Rightarrow> payload WorkflowOrchestrator \<times> string" where
  "create_video_production_workflow now sess tp orch =
    (let wid = ''workflow_'' @ sess;
         workflow = \<lparr>workflow_id = wid, session_id = sess, topic = tp,
                     wf_status = PENDING, steps = create_production_steps tp,
                     created_at = now, current_step = None, results = []\<rparr>
     in (orch\<lparr>active_workflows := (active_workflows orch)(wid \<mapsto> workflow),
               logger := logger orch @ [Created_workflow wid tp]\<rparr>, wid))"

subsection \<open>Dispatching one step\<close>

text \<open>
  \<open>_execute_workflow_step\<close>: the step object after the call, and what
  \<open>asyncio.gather(..., return_exceptions=True)\<close> holds for the coroutine, as the
  test \<open>isinstance(result, Exception)\<close> of the caller sorts it: \<open>Inl\<close> the text
  of an \<open>Exception\<close>, \<open>Inr\<close> anything else. The \<open>except Exception\<close>
  handler stores the error text on the step and re-raises; it does not touch the
  status. A \<open>CancelledError\<close> passes that handler by, so the step keeps neither an
  error nor a completion time, and the exception object counts as the value.
\<close>

definition execute_workflow_step ::
  "'c a2a \<Rightarrow> nat \<Rightarrow> nat \<Rightarrow> 'c WorkflowStep \<Rightarrow> 'c WorkflowStep \<times> (string + 'c)" where
  "execute_workflow_step send w p step =
    (let step1 = step\<lparr>status := RUNNING, started_at := Some w\<rparr>;
         raised = (\<lambda>e. (step1\<lparr>completed_at := Some w, error := Some e\<rparr>, Inl e))
     in case send w p ''workflow_orchestrator'' (agent_name step1) ''execute_task'' (task step1) of
          Raises e \<Rightarrow> raised e
        | Raises_cancelled x \<Rightarrow> (step1, Inr x)
        | Returns None \<Rightarrow> raised ''Agent execution failed: No response received''
        | Returns (Some response) \<Rightarrow>
            if success response
            then (step1\<lparr>completed_at := Some w\<rparr>, Inr (content response))
            else raised (''Agent execution failed: '' @
                   (case error_message response of None \<Rightarrow> ''None'' | Some m \<Rightarrow> m)))"

subsection \<open>Status transitions requested by other tasks\<close>

text \<open>
  While the drive loop is suspended in \<open>await asyncio.gather\<close>, other tasks of the
  event loop may call \<open>pause_workflow\<close> or \<open>cancel_workflow\<close> on the same
  workflow. \<open>apply_control\<close> is the effect of such a call on the workflow
  dictionary and on the log. Calls that start another drive loop on the same workflow
  (\<open>resume_workflow\<close>, a second \<open>execute_workflow\<close>) are not among the requests:
  the model is of one drive loop at a time.
\<close>

datatype control = Pause | Cancel

fun apply_control ::
  "string \<Rightarrow> control \<Rightarrow> 'c Workflow \<times> log_record list \<Rightarrow> 'c Workflow \<times> log_record list" where
  "apply_control wid Pause (workflow, lg) =
     (if wf_status workflow = RUNNING
      then (workflow\<lparr>wf_status := PAUSED\<rparr>, lg @ [Workflow_paused wid])
      else (workflow, lg))"
| "apply_control wid Cancel (workflow, lg) =
     (workflow\<lparr>wf_status := CANCELLED\<rparr>, lg @ [Workflow_cancelled wid])"

subsection \<open>The drive loop of \<open>execute_workflow\<close>\<close>

text \<open>
  The local state of one call: the workflow dictionary, \<open>executed_steps\<close>, the
  number of waves so far, the log, and the \<open>workflow_id\<close> argument of the call.
\<close>

record 'c drive_state =
  workflow :: "'c Workflow"
  executed_steps :: "string set"
  wave :: nat
  emitted :: "log_record list"
  registry_key :: string

definition is_ready :: "string set \<Rightarrow> 'c WorkflowStep \<Rightarrow> bool" where
  "is_ready executed step \<longleftrightarrow>
     step_id step \<notin> executed \<and> list_all (\<lambda>dep. dep \<in> executed) (dependencies step)"

text \<open>
  One pass of the \<open>for step, result in zip(ready_steps, step_results)\<close> loop. The
  step object is the one \<open>_execute_workflow_step\<close> has already mutated; it is
  stored back under its dictionary key.
\<close>

definition process_result ::
  "(string \<times> 'c WorkflowStep) \<times> ('c WorkflowStep \<times> (string + 'c)) \<Rightarrow> 'c drive_state \<Rightarrow> 'c drive_state" where
  "process_result = (\<lambda>((k, _), (step, res)) st.
     case res of
       Inl e \<Rightarrow>
         st\<lparr>workflow := (workflow st)\<lparr>steps :=
                AList.update k (step\<lparr>status := FAILED, error := Some e\<rparr>) (steps (workflow st))\<rparr>,
            emitted := emitted st @
                [Step_failed (step_id step) e, Step_completed_with_status (step_id step) FAILED]\<rparr>
     | Inr r \<Rightarrow>
         st\<lparr>workflow := (workflow st)\<lparr>steps :=
                AList.update k (step\<lparr>status := COMPLETED, result := Some r\<rparr>) (steps (workflow st)),
                results := AList.update (step_id step) r (results (workflow st))\<rparr>,
            executed_steps := insert (step_id step) (executed_steps st),
            emitted := emitted st @ [Step_completed_with_status (step_id step) COMPLETED]\<rparr>)"

datatype 'c loop_exit = Break "'c drive_state" | Continue "'c drive_state"

text \<open>
  The body of the \<open>while\<close> loop: compute the ready steps, break when there are none,
  otherwise dispatch them all, wait for the wave to settle (other tasks run meanwhile:
  \<open>env w\<close> lists the control requests that arrive during wave \<open>w\<close>) and process
  the results.
\<close>

definition wave_body :: "'c a2a \<Rightarrow> (nat \<Rightarrow> control list) \<Rightarrow> 'c drive_state \<Rightarrow> 'c loop_exit" where
  "wave_body send env st =
    (let ready_steps = filter (\<lambda>(k, step). is_ready (executed_steps st) step) (steps (workflow st))
     in if ready_steps = [] then
          Break (st\<lparr>emitted := emitted st @
            [No_ready_steps_found
               (filter (\<lambda>k. k \<notin> executed_steps st) (map fst (steps (workflow st))))]\<rparr>)
        else
          let step_results =
                map (\<lambda>(p, (k, step)). execute_workflow_step send (wave st) p step)
                    (enumerate 0 ready_steps);
              requested = fold (apply_control (registry_key st)) (env (wave st))
                (workflow st,
                 emitted st @
                   map (\<lambda>(k, step). Executing_step (step_id step) (agent_name step)) ready_steps);
              st1 = st\<lparr>workflow := fst requested, emitted := snd requested\<rparr>;
              st2 = fold process_result (zip ready_steps step_results) st1
          in Continue (st2\<lparr>wave := Suc (wave st)\<rparr>))"

partial_function (option) drive ::
  "'c a2a \<Rightarrow> (nat \<Rightarrow> control list) \<Rightarrow> nat \<Rightarrow> 'c drive_state \<Rightarrow> 'c drive_state option" where
  "drive send env total_steps st =
     (if card (executed_steps st) < total_steps then
        (case wave_body send env st of
           Break st' \<Rightarrow> Some st'
         | Continue st' \<Rightarrow> drive send env total_steps st')
      else Some st)"

text \<open>
  The first \<open>n\<close> passes of the same loop: the state at the \<open>n\<close>-th wave
  boundary (or where the loop stopped before). It always exists, whether or not the
  loop ever ends.
\<close>

fun after_waves ::
  "'c a2a \<Rightarrow> (nat \<Rightarrow> control list) \<Rightarrow> nat \<Rightarrow> nat \<Rightarrow> 'c drive_state \<Rightarrow> 'c drive_state" where
  "after_waves send env total_steps 0 st = st"
| "after_waves send env total_steps (Suc n) st =
     (if card (executed_steps st) < total_steps then
        (case wave_body send env st of
           Break st' \<Rightarrow> st'
         | Continue st' \<Rightarrow> after_waves send env total_steps n st')
      else st)"

text \<open>
  The state in which \<open>execute_workflow\<close> enters its loop: status set to Running,
  nothing executed yet.
\<close>

definition initial_state :: "string \<Rightarrow> log_record list \<Rightarrow> 'c Workflow \<Rightarrow> 'c drive_state" where
  "initial_state wid lg workflow0 =
     \<lparr>workflow = workflow0\<lparr>wf_status := RUNNING\<rparr>, executed_steps = {}, wave = 0,
      emitted = lg @ [Starting_workflow_execution wid], registry_key = wid\<rparr>"

text \<open>
  \<open>execute_workflow\<close>. \<open>None\<close> means that the call never returns. Exceptions of
  the steps are collected by \<open>gather\<close>, so the only exception of the model is the
  \<open>ValueError\<close> for an unknown id. The workflow dictionary is shared with the
  registry, so the registry shows the workflow as the loop left it.
\<close>

definition execute_workflow ::
  "'c a2a \<Rightarrow> (nat \<Rightarrow> control list) \<Rightarrow> string \<Rightarrow> 'c WorkflowOrchestrator
     \<Rightarrow> ('c WorkflowOrchestrator \<times> (exn + (string \<times> 'c) list)) option" where
  "execute_workflow send env wid orch =
    (case active_workflows orch wid of
       None \<Rightarrow> Some (orch, Inl (ValueError (''Workflow not found: '' @ wid)))
     | Some workflow0 \<Rightarrow>
        (case drive send env (length (steps workflow0))
                (initial_state wid (logger orch) workflow0) of
           None \<Rightarrow> None
         | Some st \<Rightarrow>
            let failed_steps = map fst (filter (\<lambda>(k, step). status step = FAILED) (steps (workflow st)))
            in if failed_steps \<noteq> [] then
                 Some (orch\<lparr>active_workflows :=
                          (active_workflows orch)(wid \<mapsto> (workflow st)\<lparr>wf_status := FAILED\<rparr>),
                        logger := emitted st @ [Workflow_failed_due_to_steps failed_steps]\<rparr>,
                       Inr (results (workflow st)))
               else
                 Some (orch\<lparr>active_workflows :=
                          (active_workflows orch)(wid \<mapsto> (workflow st)\<lparr>wf_status := COMPLETED\<rparr>),
                        logger := emitted st @ [Workflow_completed_successfully wid]\<rparr>,
                       Inr (results (workflow st)))))"

subsection \<open>Pause, resume, cancel and the status query\<close>

definition pause_workflow :: "string \<Rightarrow> 'c WorkflowOrchestrator \<Rightarrow> 'c WorkflowOrchestrator \<times> bool" where
  "pause_workflow wid orch =
    (case active_workflows orch wid of
       None \<Rightarrow> (orch, False)
     | Some workflow0 \<Rightarrow>
         if wf_status workflow0 = RUNNING then
           (orch\<lparr>active_workflows := (active_workflows orch)(wid \<mapsto> workflow0\<lparr>wf_status := PAUSED\<rparr>),
                 logger := logger orch @ [Workflow_paused wid]\<rparr>, True)
         else (orch, False))"

definition resume_workflow :: "string \<Rightarrow> 'c WorkflowOrchestrator \<Rightarrow> 'c WorkflowOrchestrator \<times> bool" where
  "resume_workflow wid orch =
    (case active_workflows orch wid of
       None \<Rightarrow> (orch, False)
     | Some workflow0 \<Rightarrow>
         if wf_status workflow0 = PAUSED then
           (orch\<lparr>active_workflows := (active_workflows orch)(wid \<mapsto> workflow0\<lparr>wf_status := RUNNING\<rparr>),
                 logger := logger orch @ [Workflow_resumed wid],
                 created_tasks := created_tasks orch @ [wid]\<rparr>, True)
         else (orch, False))"

definition cancel_workflow :: "string \<Rightarrow> 'c WorkflowOrchestrator \<Rightarrow> 'c WorkflowOrchestrator \<times> bool" where
  "cancel_workflow wid orch =
    (case active_workflows orch wid of
       None \<Rightarrow> (orch, False)
     | Some workflow0 \<Rightarrow>
         (orch\<lparr>active_workflows := (active_workflows orch)(wid \<mapsto> workflow0\<lparr>wf_status := CANCELLED\<rparr>),
               logger := logger orch @ [Workflow_cancelled wid]\<rparr>, True))"

text \<open>
  The dictionary returned by \<open>get_workflow_status\<close>. The floating-point
  \<open>progress\<close> entry, derived from \<open>completed_steps\<close> and \<open>total_steps\<close>, is
  left out.
\<close>

record step_detail =
  detail_status :: string
  detail_agent :: string
  detail_started_at :: "nat option"
  detail_completed_at :: "nat option"
  detail_error :: "string option"

record status_report =
  report_workflow_id :: string
  report_status :: string
  report_current_step :: "string option"
  completed_steps :: nat
  total_steps :: nat
  report_created_at :: nat
  step_details :: "(string \<times> step_detail) list"

datatype status_reply = Status_error string | Status_report status_report

definition get_workflow_status :: "string \<Rightarrow> 'c WorkflowOrchestrator \<Rightarrow> status_reply" where
  "get_workflow_status wid orch =
    (case active_workflows orch wid of
       None \<Rightarrow> Status_error ''Workflow not found''
     | Some workflow0 \<Rightarrow>
         Status_report
           \<lparr>report_workflow_id = wid,
            report_status = status_value (wf_status workflow0),
            report_current_step = current_step workflow0,
            completed_steps =
              length (filter (\<lambda>(k, step). status step \<in> {COMPLETED, FAILED}) (steps workflow0)),
            total_steps = length (steps workflow0),
            report_created_at = created_at workflow0,
            step_details =
              map (\<lambda>(k, step). (k, \<lparr>detail_status = status_value (status step),
                                     detail_agent = agent_name step,
                                     detail_started_at = started_at step,
                                     detail_completed_at = completed_at step,
                                     detail_error = error step\<rparr>)) (steps workflow0)\<rparr>)"

section \<open>The quality validation loop (agents/loop\_agents.py)\<close>

text \<open>
  Scores are Python floats; the loop only compares them, so they are modelled as reals.
  Asset dictionaries hold opaque values and the \<open>True\<close> flags written by
  \<open>_apply_improvements\<close>.
\<close>

datatype 'a pyval = PyTrue | Data 'a

type_synonym 'a assets = "(string \<times> 'a pyval) list"

type_synonym requirements = "(string \<times> real) list"

record issue =
  component :: string
  description :: string
  severity :: "string option"

record assessment =
  overall_score :: real
  component_scores :: "(string \<times> real) list"
  issues_found :: "issue list"

record improvement =
  imp_component :: string
  imp_issue :: string
  suggestion :: string
  priority :: string

record 'a validation_task =
  video_assets :: "'a assets option"
  quality_requirements :: "requirements option"

record validation_results =
  final_quality_score :: real
  iterations_performed :: int
  improvements_made :: "improvement list"
  meets_standards :: bool

text \<open>The validator object. \<open>iteration_count\<close> is an attribute set by \<open>__init__\<close>.\<close>

record QualityValidatorAgent =
  quality_threshold :: real
  max_iterations :: int
  iteration_count :: int

definition new_validator :: "real \<Rightarrow> int \<Rightarrow> QualityValidatorAgent" where
  "new_validator t m = \<lparr>quality_threshold = t, max_iterations = m, iteration_count = 0\<rparr>"

definition get_improvement_suggestion :: "issue \<Rightarrow> string" where
  "get_improvement_suggestion i =
    (case map_of
        [(''script_quality'', ''Rewrite script with more engaging content and clear structure''),
         (''audio_quality'', ''Improve audio clarity and add background music''),
         (''visual_quality'', ''Enhance visuals with better graphics and transitions''),
         (''engagement_potential'', ''Add hooks and calls to action to improve engagement'')]
        (component i) of
       Some s \<Rightarrow> s
     | None \<Rightarrow> ''General quality improvement needed'')"

definition generate_improvements :: "assessment \<Rightarrow> improvement list" where
  "generate_improvements a =
     map (\<lambda>i. \<lparr>imp_component = component i, imp_issue = description i,
               suggestion = get_improvement_suggestion i,
               priority = (case severity i of Some s \<Rightarrow> s | None \<Rightarrow> ''medium'')\<rparr>)
         (issues_found a)"

definition apply_improvements :: "'a assets \<Rightarrow> improvement list \<Rightarrow> 'a assets" where
  "apply_improvements assets0 improvements =
     fold (\<lambda>imp improved_assets.
             if imp_component imp \<in> set (map fst improved_assets)
             then AList.update (imp_component imp @ ''_improved'') PyTrue improved_assets
             else improved_assets)
          improvements assets0"

text \<open>
  The \<open>while\<close> loop of \<open>execute\<close>. \<open>_assess_quality\<close> is the parameter
  \<open>assess\<close>; it may answer differently from call to call, so it threads a state
  \<open>'e\<close> of its own. The loop returns the validator object as it leaves it.
\<close>

function quality_loop ::
  "('e \<Rightarrow> 'a assets \<Rightarrow> requirements \<Rightarrow> assessment \<times> 'e) \<Rightarrow> QualityValidatorAgent \<Rightarrow> 'e
     \<Rightarrow> 'a assets \<Rightarrow> requirements \<Rightarrow> validation_results
     \<Rightarrow> QualityValidatorAgent \<times> 'e \<times> validation_results" where
  "quality_loop assess self env assets0 reqs res =
    (if iteration_count self < max_iterations self \<and> \<not> meets_standards res then
       let self1 = self\<lparr>iteration_count := iteration_count self + 1\<rparr>;
           quality_assessment = fst (assess env assets0 reqs);
           env1 = snd (assess env assets0 reqs);
           current_score = overall_score quality_assessment;
           res1 = res\<lparr>final_quality_score := current_score,
                      iterations_performed := iteration_count self1\<rparr>
       in if current_score \<ge> quality_threshold self1 then
            (self1, env1, res1\<lparr>meets_standards := True\<rparr>)
          else
            let improvements = generate_improvements quality_assessment;
                res2 = res1\<lparr>improvements_made := improvements_made res1 @ improvements\<rparr>;
                assets1 = (if improvements \<noteq> [] then apply_improvements assets0 improvements
                           else assets0)
            in if iteration_count self1 \<ge> max_iterations self1 then (self1, env1, res2)
               else quality_loop assess self1 env1 assets1 reqs res2
     else (self, env, res))"
  by pat_completeness auto
termination
  by (relation "measure (\<lambda>(assess, self, env, assets0, reqs, res).
                  nat (max_iterations self - iteration_count self))") auto

text \<open>\<open>QualityValidatorAgent.execute\<close>: a fresh results dictionary, then the loop.\<close>

definition execute ::
  "('e \<Rightarrow> 'a assets \<Rightarrow> requirements \<Rightarrow> assessment \<times> 'e) \<Rightarrow> 'a validation_task
     \<Rightarrow> QualityValidatorAgent \<times> 'e \<Rightarrow> QualityValidatorAgent \<times> 'e \<times> validation_results" where
  "execute assess tsk = (\<lambda>(self, env).
     quality_loop assess self env
       (case video_assets tsk of Some a \<Rightarrow> a | None \<Rightarrow> [])
       (case quality_requirements tsk of Some r \<Rightarrow> r | None \<Rightarrow> [])
       \<lparr>final_quality_score = 0, iterations_performed = 0, improvements_made = [],
        meets_standards = False\<rparr>)"

subsection \<open>Assessment functions used as test doubles\<close>

text \<open>
  An assessment function that answers from a script, one entry per call, and one that
  always answers the same.
\<close>

definition scripted_assess :: "assessment list \<Rightarrow> 'a assets \<Rightarrow> requirements \<Rightarrow> assessment \<times> assessment list" where
  "scripted_assess script assets0 reqs =
     (case script of
        [] \<Rightarrow> (\<lparr>overall_score = 0, component_scores = [], issues_found = []\<rparr>, [])
      | a # rest \<Rightarrow> (a, rest))"

definition constant_assess :: "assessment \<Rightarrow> unit \<Rightarrow> 'a assets \<Rightarrow> requirements \<Rightarrow> assessment \<times> unit" where
  "constant_assess a env assets0 reqs = (a, ())"

section \<open>Predicates and concrete inputs used in the statements\<close>

text \<open>
  What the data model asks of a step: a result exactly when the status is Completed,
  and an error exactly when the status is Failed.
\<close>

definition consistent_step :: "'c WorkflowStep \<Rightarrow> bool" where
  "consistent_step s \<longleftrightarrow>
     (result s \<noteq> None) = (status s = COMPLETED) \<and> (error s \<noteq> None) = (status s = FAILED)"

definition freshly_constructed :: "'c WorkflowStep \<Rightarrow> bool" where
  "freshly_constructed s \<longleftrightarrow> status s = PENDING \<and> result s = None \<and> error s = None"

text \<open>
  In the wave that the loop runs next from \<open>st\<close>, a step that already carries the
  error of an earlier dispatch is dispatched again and this time is processed as a
  success.
\<close>

definition retry_succeeds :: "'c a2a \<Rightarrow> nat \<Rightarrow> 'c drive_state \<Rightarrow> bool" where
  "retry_succeeds send tot st \<longleftrightarrow>
     card (executed_steps st) < tot \<and>
     list_ex (\<lambda>(p, (k, step)). error step \<noteq> None \<and>
                (case snd (execute_workflow_step send (wave st) p step) of
                   Inl e \<Rightarrow> False | Inr r \<Rightarrow> True))
       (enumerate 0
          (filter (\<lambda>(k, step). is_ready (executed_steps st) step) (steps (workflow st))))"

text \<open>
  The loop invariant behind the consistency of steps: a Completed step is in
  \<open>executed_steps\<close>, so it is never dispatched again.
\<close>

definition state_inv :: "'c drive_state \<Rightarrow> bool" where
  "state_inv st \<longleftrightarrow> (\<forall>(k, s) \<in> set (steps (workflow st)).
      consistent_step s \<and> (status s = COMPLETED \<longrightarrow> step_id s \<in> executed_steps st))"

text \<open>A bus on which no call ever succeeds, and a loop state that such a bus cannot move.\<close>

definition never_succeeds :: "'c a2a \<Rightarrow> bool" where
  "never_succeeds send \<longleftrightarrow>
     (\<forall>w p sndr rcvr mt c. case send w p sndr rcvr mt c of
         Returns (Some r) \<Rightarrow> \<not> success r | Raises_cancelled x \<Rightarrow> False | _ \<Rightarrow> True)"

definition blocked :: "'c drive_state \<Rightarrow> bool" where
  "blocked st \<longleftrightarrow> executed_steps st = {} \<and>
     (\<exists>(k, s) \<in> set (steps (workflow st)). dependencies s = [])"

text \<open>
  Responses as the bus builds them: the timeout response of
  \<open>_send_and_await_response\<close> and the success response of \<open>_process_message\<close>.
\<close>

definition failure_response :: "string \<Rightarrow> 'c \<Rightarrow> 'c MessageResponse" where
  "failure_response msg c0 =
     \<lparr>response_id = ''r'', original_message_id = ''m'', sender = ''system'', content = c0,
      success = False, timestamp = 0, error_message = Some msg\<rparr>"

definition success_response :: "string \<Rightarrow> 'c \<Rightarrow> 'c MessageResponse" where
  "success_response sndr c =
     \<lparr>response_id = ''r'', original_message_id = ''m'', sender = sndr, content = c,
      success = True, timestamp = 0, error_message = None\<rparr>"

definition always_succeeds :: "payload a2a" where
  "always_succeeds w p sndr rcvr mt c = Returns (Some (success_response rcvr c))"

definition always_times_out :: "payload a2a" where
  "always_times_out w p sndr rcvr mt c =
     Returns (Some (failure_response ''Response timeout'' []))"

definition fails_first_wave :: "payload a2a" where
  "fails_first_wave w p sndr rcvr mt c =
     (if w = 0 then Returns (Some (failure_response ''Response timeout'' []))
      else Returns (Some (success_response rcvr c)))"


definition no_requests :: "nat \<Rightarrow> control list" where
  "no_requests w = []"

definition cancel_in_first_wave :: "nat \<Rightarrow> control list" where
  "cancel_in_first_wave w = (if w = 0 then [Cancel] else [])"

definition pause_in_first_wave :: "nat \<Rightarrow> control list" where
  "pause_in_first_wave w = (if w = 0 then [Pause] else [])"

definition empty_orchestrator :: "'c WorkflowOrchestrator" where
  "empty_orchestrator = \<lparr>active_workflows = Map.empty, logger = [], created_tasks = []\<rparr>"

definition workflow_of :: "string \<Rightarrow> (string \<times> 'c WorkflowStep) list \<Rightarrow> 'c Workflow" where
  "workflow_of wid ss =
     \<lparr>workflow_id = wid, session_id = ''s'', topic = ''t'', wf_status = PENDING,
      steps = ss, created_at = 0, current_step = None, results = []\<rparr>"

definition registry_of :: "'c Workflow \<Rightarrow> 'c WorkflowOrchestrator" where
  "registry_of w =
     \<lparr>active_workflows = [workflow_id w \<mapsto> w], logger = [], created_tasks = []\<rparr>"


definition chain_workflow :: "payload Workflow" where
  "chain_workflow = workflow_of ''w''
     [(''b'', new_step ''b'' ''agent_b'' [] []), (''a'', new_step ''a'' ''agent_a'' [] [''b''])]"

definition cyclic_workflow :: "payload Workflow" where
  "cyclic_workflow = workflow_of ''w''
     [(''a'', new_step ''a'' ''agent_a'' [] [''b'']), (''b'', new_step ''b'' ''agent_b'' [] [''a''])]"


text \<open>A workflow that has run to completion.\<close>

definition finished_workflow :: "payload Workflow" where
  "finished_workflow =
     \<lparr>workflow_id = ''w'', session_id = ''s'', topic = ''t'', wf_status = COMPLETED,
      steps = [(''a'', \<lparr>step_id = ''a'', agent_name = ''agent_a'', task = [],
                        dependencies = [], status = COMPLETED, result = Some [],
                        error = None, started_at = Some 0, completed_at = Some 0\<rparr>)],
      created_at = 0, current_step = None, results = [(''a'', [])]\<rparr>"

text \<open>An assessment with the given overall score and no issues.\<close>

definition scored :: "real \<Rightarrow> assessment" where
  "scored x = \<lparr>overall_score = x, component_scores = [], issues_found = []\<rparr>"

section \<open>Evaluating concrete runs\<close>

lemmas run_defs = execute_workflow_def initial_state_def wave_body_def is_ready_def
  execute_workflow_step_def process_result_def enumerate_eq_zip new_step_def
  workflow_of_def registry_of_def failure_response_def success_response_def
  no_requests_def

section \<open>Unknown workflow ids\<close>

text \<open>
  C10. For a workflow id that is not in the registry, \<open>execute_workflow\<close> raises
  \<open>ValueError\<close>, \<open>pause_workflow\<close>, \<open>resume_workflow\<close> and
  \<open>cancel_workflow\<close> return \<open>False\<close>, and \<open>get_workflow_status\<close> returns
  an error value instead of raising; each of them leaves the orchestrator (registry,
  log and scheduled tasks) exactly as it was.
\<close>

theorem unknown_workflow_id:
  assumes "active_workflows orch wid = None"
  shows "execute_workflow send env wid orch =
           Some (orch, Inl (ValueError (''Workflow not found: '' @ wid)))
       \<and> pause_workflow wid orch = (orch, False)
       \<and> resume_workflow wid orch = (orch, False)
       \<and> cancel_workflow wid orch = (orch, False)
       \<and> get_workflow_status wid orch = Status_error ''Workflow not found''"
  using assms
  by (simp add: execute_workflow_def pause_workflow_def resume_workflow_def
        cancel_workflow_def get_workflow_status_def)

theorem unknown_workflow_id_witness:
  "active_workflows (registry_of chain_workflow) ''other'' = None
   \<and> execute_workflow always_succeeds no_requests ''other'' (registry_of chain_workflow) =
        Some (registry_of chain_workflow, Inl (ValueError ''Workflow not found: other''))
   \<and> pause_workflow ''other'' (registry_of chain_workflow) = (registry_of chain_workflow, False)
   \<and> resume_workflow ''other'' (registry_of chain_workflow) = (registry_of chain_workflow, False)
   \<and> cancel_workflow ''other'' (registry_of chain_workflow) = (registry_of chain_workflow, False)
   \<and> get_workflow_status ''other'' (registry_of chain_workflow) = Status_error ''Workflow not found''"
proof -
  have none: "active_workflows (registry_of chain_workflow) ''other'' = None"
    by (simp add: registry_of_def chain_workflow_def workflow_of_def)
  from unknown_workflow_id [OF none, of always_succeeds no_requests] none
  show ?thesis by simp
qed

section \<open>Pause, resume and cancel\<close>

text \<open>
  C7 fails for \<open>cancel_workflow\<close>: on a workflow whose status is Completed it
  returns \<open>True\<close> and relabels the workflow Cancelled.
\<close>

theorem cancel_terminal_counterexample:
  "cancel_workflow ''w'' (registry_of finished_workflow) =
     (\<lparr>active_workflows = [''w'' \<mapsto> finished_workflow\<lparr>wf_status := CANCELLED\<rparr>],
       logger = [Workflow_cancelled ''w''], created_tasks = []\<rparr>, True)
   \<and> wf_status finished_workflow = COMPLETED"
  by (simp add: cancel_workflow_def registry_of_def finished_workflow_def)

text \<open>
  C7, amended. For a registered workflow, \<open>pause_workflow\<close> returns \<open>False\<close> and
  changes nothing unless the status is Running; \<open>resume_workflow\<close> returns
  \<open>False\<close> and changes nothing unless the status is Paused; \<open>cancel_workflow\<close>
  has no guard on the status: from every status, terminal ones included, it returns
  \<open>True\<close> and sets the status to Cancelled.
\<close>

theorem transition_guards:
  assumes "active_workflows orch wid = Some workflow0"
  shows "(wf_status workflow0 \<noteq> RUNNING \<longrightarrow> pause_workflow wid orch = (orch, False))
       \<and> (wf_status workflow0 \<noteq> PAUSED \<longrightarrow> resume_workflow wid orch = (orch, False))
       \<and> cancel_workflow wid orch =
            (orch\<lparr>active_workflows :=
                     (active_workflows orch)(wid \<mapsto> workflow0\<lparr>wf_status := CANCELLED\<rparr>),
                   logger := logger orch @ [Workflow_cancelled wid]\<rparr>, True)"
  using assms
  by (simp add: pause_workflow_def resume_workflow_def cancel_workflow_def)

theorem transition_guards_witness:
  "active_workflows (registry_of finished_workflow) ''w'' = Some finished_workflow
   \<and> wf_status finished_workflow \<noteq> RUNNING
   \<and> wf_status finished_workflow \<noteq> PAUSED
   \<and> pause_workflow ''w'' (registry_of finished_workflow) = (registry_of finished_workflow, False)
   \<and> resume_workflow ''w'' (registry_of finished_workflow) = (registry_of finished_workflow, False)
   \<and> snd (cancel_workflow ''w'' (registry_of finished_workflow)) = True"
proof -
  have reg: "active_workflows (registry_of finished_workflow) ''w'' = Some finished_workflow"
    by (simp add: registry_of_def finished_workflow_def)
  have st: "wf_status finished_workflow = COMPLETED"
    by (simp add: finished_workflow_def)
  from transition_guards [OF reg] reg st show ?thesis by simp
qed

text \<open>
  The requests that reach a running drive loop have the effect of the calls themselves,
  on the workflow and on the log.
\<close>

lemma pause_workflow_apply_control:
  assumes "active_workflows orch wid = Some workflow0"
  shows "active_workflows (fst (pause_workflow wid orch)) wid =
           Some (fst (apply_control wid Pause (workflow0, logger orch)))
       \<and> logger (fst (pause_workflow wid orch)) =
           snd (apply_control wid Pause (workflow0, logger orch))"
  using assms by (simp add: pause_workflow_def)

lemma cancel_workflow_apply_control:
  assumes "active_workflows orch wid = Some workflow0"
  shows "active_workflows (fst (cancel_workflow wid orch)) wid =
           Some (fst (apply_control wid Cancel (workflow0, logger orch)))
       \<and> logger (fst (cancel_workflow wid orch)) =
           snd (apply_control wid Cancel (workflow0, logger orch))"
  using assms by (simp add: cancel_workflow_def)

section \<open>The quality loop\<close>

lemma scripted_run:
  "execute scripted_assess tsk
     (new_validator 0.8 5,
      [\<lparr>overall_score = 0.5, component_scores = c1, issues_found = i1\<rparr>,
       \<lparr>overall_score = 0.6, component_scores = c2, issues_found = i2\<rparr>,
       \<lparr>overall_score = 0.9, component_scores = c3, issues_found = i3\<rparr>]) =
   (\<lparr>quality_threshold = 0.8, max_iterations = 5, iteration_count = 3\<rparr>, [],
    \<lparr>final_quality_score = 0.9, iterations_performed = 3,
      improvements_made =
        generate_improvements \<lparr>overall_score = 0.5, component_scores = c1, issues_found = i1\<rparr> @
        generate_improvements \<lparr>overall_score = 0.6, component_scores = c2, issues_found = i2\<rparr>,
      meets_standards = True\<rparr>)"
  apply (simp add: execute_def new_validator_def)
  apply (subst quality_loop.simps, simp add: scripted_assess_def Let_def del: quality_loop.simps)+
  done

lemma constant_run:
  "execute (constant_assess \<lparr>overall_score = 0.3, component_scores = c, issues_found = i\<rparr>) tsk
     (new_validator 0.8 5, ()) =
   (\<lparr>quality_threshold = 0.8, max_iterations = 5, iteration_count = 5\<rparr>, (),
    \<lparr>final_quality_score = 0.3, iterations_performed = 5,
      improvements_made = concat (replicate 5
        (generate_improvements \<lparr>overall_score = 0.3, component_scores = c, issues_found = i\<rparr>)),
      meets_standards = False\<rparr>)"
  apply (simp add: execute_def new_validator_def)
  apply (subst quality_loop.simps, simp add: constant_assess_def Let_def del: quality_loop.simps)+
  apply (simp add: numeral_eq_Suc)
  done

lemma quality_loop_meets:
  assumes "list_all (\<lambda>a. overall_score a < quality_threshold self) pre"
    and "quality_threshold self \<le> overall_score a"
    and "iteration_count self + int (length pre) < max_iterations self"
    and "\<not> meets_standards res"
  shows "quality_loop scripted_assess self (pre @ a # rest) assets0 reqs res =
          (self\<lparr>iteration_count := iteration_count self + int (length pre) + 1\<rparr>, rest,
           res\<lparr>final_quality_score := overall_score a,
               iterations_performed := iteration_count self + int (length pre) + 1,
               improvements_made := improvements_made res @ concat (map generate_improvements pre),
               meets_standards := True\<rparr>)"
  using assms
proof (induction pre arbitrary: self assets0 res)
  case Nil
  then show ?case
    by (subst quality_loop.simps) (simp add: scripted_assess_def Let_def del: quality_loop.simps)
next
  case (Cons b pre)
  let ?self1 = "self\<lparr>iteration_count := iteration_count self + 1\<rparr>"
  let ?res2 = "res\<lparr>final_quality_score := overall_score b,
                    iterations_performed := iteration_count self + 1,
                    improvements_made := improvements_made res @ generate_improvements b\<rparr>"
  let ?assets1 = "if generate_improvements b \<noteq> [] then apply_improvements assets0 (generate_improvements b) else assets0"
  from Cons.prems have step:
    "quality_loop scripted_assess self ((b # pre) @ a # rest) assets0 reqs res =
     quality_loop scripted_assess ?self1 (pre @ a # rest) ?assets1 reqs ?res2"
    by (subst quality_loop.simps) (simp add: scripted_assess_def Let_def del: quality_loop.simps)
  have "quality_loop scripted_assess ?self1 (pre @ a # rest) ?assets1 reqs ?res2 =
          (?self1\<lparr>iteration_count := iteration_count ?self1 + int (length pre) + 1\<rparr>, rest,
           ?res2\<lparr>final_quality_score := overall_score a,
               iterations_performed := iteration_count ?self1 + int (length pre) + 1,
               improvements_made := improvements_made ?res2 @ concat (map generate_improvements pre),
               meets_standards := True\<rparr>)"
    using Cons.prems by (intro Cons.IH) simp_all
  with step show ?case by simp
qed

lemma quality_loop_exhausts:
  assumes "list_all (\<lambda>a. overall_score a < quality_threshold self) pre"
    and "pre \<noteq> []"
    and "iteration_count self + int (length pre) = max_iterations self"
    and "\<not> meets_standards res"
  shows "quality_loop scripted_assess self (pre @ rest) assets0 reqs res =
          (self\<lparr>iteration_count := max_iterations self\<rparr>, rest,
           res\<lparr>final_quality_score := overall_score (last pre),
               iterations_performed := max_iterations self,
               improvements_made := improvements_made res @ concat (map generate_improvements pre)\<rparr>)"
  using assms
proof (induction pre arbitrary: self assets0 res)
  case Nil
  then show ?case by simp
next
  case (Cons b pre)
  let ?self1 = "self\<lparr>iteration_count := iteration_count self + 1\<rparr>"
  let ?res2 = "res\<lparr>final_quality_score := overall_score b,
                    iterations_performed := iteration_count self + 1,
                    improvements_made := improvements_made res @ generate_improvements b\<rparr>"
  let ?assets1 = "if generate_improvements b \<noteq> [] then apply_improvements assets0 (generate_improvements b) else assets0"
  show ?case
  proof (cases "pre = []")
    case True
    with Cons.prems show ?thesis
      by (subst quality_loop.simps) (simp add: scripted_assess_def Let_def del: quality_loop.simps)
  next
    case False
    from False have "0 < int (length pre)" by simp
    moreover from Cons.prems(3)
    have "max_iterations self = iteration_count self + 1 + int (length pre)" by simp
    ultimately have more: "\<not> max_iterations self \<le> iteration_count self + 1"
      by linarith
    from Cons.prems more have step:
      "quality_loop scripted_assess self ((b # pre) @ rest) assets0 reqs res =
       quality_loop scripted_assess ?self1 (pre @ rest) ?assets1 reqs ?res2"
      by (subst quality_loop.simps) (simp add: scripted_assess_def Let_def del: quality_loop.simps)
    have "quality_loop scripted_assess ?self1 (pre @ rest) ?assets1 reqs ?res2 =
          (?self1\<lparr>iteration_count := max_iterations ?self1\<rparr>, rest,
           ?res2\<lparr>final_quality_score := overall_score (last pre),
               iterations_performed := max_iterations ?self1,
               improvements_made := improvements_made ?res2 @ concat (map generate_improvements pre)\<rparr>)"
      using Cons.prems False by (intro Cons.IH) simp_all
    with step False show ?thesis by simp
  qed
qed

text \<open>
  C4. On a freshly constructed validator with threshold \<open>t\<close> and budget \<open>m\<close>,
  the loop assesses until an assessment reaches the threshold or \<open>m\<close> assessments
  have been made, and reports the score of the last assessment: if the first
  \<open>length pre\<close> assessments (fewer than \<open>m\<close>) are below \<open>t\<close> and the next
  one reaches it, the loop performs \<open>length pre + 1\<close> iterations, meets the standards
  and reports that score; if the first \<open>m\<close> assessments are all below \<open>t\<close>, it
  performs \<open>m\<close> iterations, does not meet the standards and reports the last of
  them. In particular, with threshold 0.8 and budget 5: when the assessments score 0.5,
  0.6 and 0.9 in turn the loop performs exactly 3 iterations, meets the standards and
  reports 0.9; when every assessment scores 0.3 it performs exactly 5 iterations, does
  not meet the standards and reports 0.3.
\<close>

theorem quality_loop_contract:
  "(list_all (\<lambda>a. overall_score a < t) pre \<and> t \<le> overall_score a \<and> int (length pre) < m \<longrightarrow>
      execute scripted_assess tsk (new_validator t m, pre @ a # rest) =
        (\<lparr>quality_threshold = t, max_iterations = m, iteration_count = int (length pre) + 1\<rparr>,
         rest,
         \<lparr>final_quality_score = overall_score a,
          iterations_performed = int (length pre) + 1,
          improvements_made = concat (map generate_improvements pre),
          meets_standards = True\<rparr>))
   \<and> (list_all (\<lambda>a. overall_score a < t) pre \<and> pre \<noteq> [] \<and> int (length pre) = m \<longrightarrow>
      execute scripted_assess tsk (new_validator t m, pre @ rest) =
        (\<lparr>quality_threshold = t, max_iterations = m, iteration_count = m\<rparr>,
         rest,
         \<lparr>final_quality_score = overall_score (last pre),
          iterations_performed = m,
          improvements_made = concat (map generate_improvements pre),
          meets_standards = False\<rparr>))
   \<and> iterations_performed (snd (snd (execute scripted_assess tsk
      (new_validator 0.8 5,
       [\<lparr>overall_score = 0.5, component_scores = c1, issues_found = i1\<rparr>,
        \<lparr>overall_score = 0.6, component_scores = c2, issues_found = i2\<rparr>,
        \<lparr>overall_score = 0.9, component_scores = c3, issues_found = i3\<rparr>])))) = 3
   \<and> meets_standards (snd (snd (execute scripted_assess tsk
      (new_validator 0.8 5,
       [\<lparr>overall_score = 0.5, component_scores = c1, issues_found = i1\<rparr>,
        \<lparr>overall_score = 0.6, component_scores = c2, issues_found = i2\<rparr>,
        \<lparr>overall_score = 0.9, component_scores = c3, issues_found = i3\<rparr>]))))
   \<and> final_quality_score (snd (snd (execute scripted_assess tsk
      (new_validator 0.8 5,
       [\<lparr>overall_score = 0.5, component_scores = c1, issues_found = i1\<rparr>,
        \<lparr>overall_score = 0.6, component_scores = c2, issues_found = i2\<rparr>,
        \<lparr>overall_score = 0.9, component_scores = c3, issues_found = i3\<rparr>])))) = 0.9
   \<and> iterations_performed (snd (snd (execute
        (constant_assess \<lparr>overall_score = 0.3, component_scores = c, issues_found = i\<rparr>) tsk'
        (new_validator 0.8 5, ())))) = 5
   \<and> \<not> meets_standards (snd (snd (execute
        (constant_assess \<lparr>overall_score = 0.3, component_scores = c, issues_found = i\<rparr>) tsk'
        (new_validator 0.8 5, ()))))
   \<and> final_quality_score (snd (snd (execute
        (constant_assess \<lparr>overall_score = 0.3, component_scores = c, issues_found = i\<rparr>) tsk'
        (new_validator 0.8 5, ())))) = 0.3"
proof (intro conjI impI)
  assume "list_all (\<lambda>a. overall_score a < t) pre \<and> t \<le> overall_score a \<and> int (length pre) < m"
  then show "execute scripted_assess tsk (new_validator t m, pre @ a # rest) =
        (\<lparr>quality_threshold = t, max_iterations = m, iteration_count = int (length pre) + 1\<rparr>,
         rest,
         \<lparr>final_quality_score = overall_score a,
          iterations_performed = int (length pre) + 1,
          improvements_made = concat (map generate_improvements pre),
          meets_standards = True\<rparr>)"
    by (simp add: execute_def new_validator_def quality_loop_meets del: quality_loop.simps)
next
  assume "list_all (\<lambda>a. overall_score a < t) pre \<and> pre \<noteq> [] \<and> int (length pre) = m"
  then show "execute scripted_assess tsk (new_validator t m, pre @ rest) =
        (\<lparr>quality_threshold = t, max_iterations = m, iteration_count = m\<rparr>,
         rest,
         \<lparr>final_quality_score = overall_score (last pre),
          iterations_performed = m,
          improvements_made = concat (map generate_improvements pre),
          meets_standards = False\<rparr>)"
    by (simp add: execute_def new_validator_def quality_loop_exhausts del: quality_loop.simps)
qed (simp_all only: scripted_run constant_run snd_conv validation_results.simps simp_thms)

theorem quality_loop_contract_witness:
  "list_all (\<lambda>a. overall_score a < 0.8) [scored 0.5, scored 0.6]
   \<and> (0.8::real) \<le> overall_score (scored 0.9)
   \<and> int (length [scored 0.5, scored 0.6]) < 5
   \<and> execute scripted_assess \<lparr>video_assets = None, quality_requirements = None\<rparr>
        (new_validator 0.8 5, [scored 0.5, scored 0.6] @ scored 0.9 # []) =
        (\<lparr>quality_threshold = 0.8, max_iterations = 5, iteration_count = 3\<rparr>, [],
         \<lparr>final_quality_score = 0.9, iterations_performed = 3, improvements_made = [],
          meets_standards = True\<rparr>)
   \<and> list_all (\<lambda>a. overall_score a < 0.8) [scored 0.3, scored 0.4]
   \<and> [scored 0.3, scored 0.4] \<noteq> []
   \<and> int (length [scored 0.3, scored 0.4]) = 2
   \<and> execute scripted_assess \<lparr>video_assets = None, quality_requirements = None\<rparr>
        (new_validator 0.8 2, [scored 0.3, scored 0.4] @ []) =
        (\<lparr>quality_threshold = 0.8, max_iterations = 2, iteration_count = 2\<rparr>, [],
         \<lparr>final_quality_score = 0.4, iterations_performed = 2, improvements_made = [],
          meets_standards = False\<rparr>)"
proof -
  have h1: "list_all (\<lambda>a. overall_score a < 0.8) [scored 0.5, scored 0.6]
            \<and> (0.8::real) \<le> overall_score (scored 0.9)
            \<and> int (length [scored 0.5, scored 0.6]) < 5"
    by (simp add: scored_def)
  have h2: "list_all (\<lambda>a. overall_score a < 0.8) [scored 0.3, scored 0.4]
            \<and> [scored 0.3, scored 0.4] \<noteq> []
            \<and> int (length [scored 0.3, scored 0.4]) = 2"
    by (simp add: scored_def)
  from quality_loop_contract
         [of "0.8" "[scored 0.5, scored 0.6]" "scored 0.9" 5
             "\<lparr>video_assets = None, quality_requirements = None\<rparr>" "[]",
          THEN conjunct1, THEN mp, OF h1]
  have r1: "execute scripted_assess \<lparr>video_assets = None, quality_requirements = None\<rparr>
        (new_validator 0.8 5, [scored 0.5, scored 0.6] @ scored 0.9 # []) =
        (\<lparr>quality_threshold = 0.8, max_iterations = 5, iteration_count = 3\<rparr>, [],
         \<lparr>final_quality_score = 0.9, iterations_performed = 3, improvements_made = [],
          meets_standards = True\<rparr>)"
    by (simp add: scored_def generate_improvements_def)
  from quality_loop_contract
         [of "0.8" "[scored 0.3, scored 0.4]" _ 2
             "\<lparr>video_assets = None, quality_requirements = None\<rparr>" "[]",
          THEN conjunct2, THEN conjunct1, THEN mp, OF h2]
  have r2: "execute scripted_assess \<lparr>video_assets = None, quality_requirements = None\<rparr>
        (new_validator 0.8 2, [scored 0.3, scored 0.4] @ []) =
        (\<lparr>quality_threshold = 0.8, max_iterations = 2, iteration_count = 2\<rparr>, [],
         \<lparr>final_quality_score = 0.4, iterations_performed = 2, improvements_made = [],
          meets_standards = False\<rparr>)"
    by (simp add: scored_def generate_improvements_def)
  from h1 h2 r1 r2 show ?thesis by blast
qed

text \<open>
  C5 fails on the code: \<open>iteration_count\<close> is an attribute of the validator that
  \<open>execute\<close> never resets. After one invocation has used the budget of 5, the next
  invocation on the same validator does not enter the loop at all: it performs no
  assessment and returns 0 iterations, score 0 and standards not met.
\<close>

theorem second_invocation_skips_loop:
  "execute (constant_assess (scored 0.3)) tsk2
     (fst (execute (constant_assess (scored 0.3)) tsk1 (new_validator 0.8 5, ())), ()) =
   (\<lparr>quality_threshold = 0.8, max_iterations = 5, iteration_count = 5\<rparr>, (),
    \<lparr>final_quality_score = 0, iterations_performed = 0, improvements_made = [],
      meets_standards = False\<rparr>)"
  unfolding scored_def constant_run fst_conv
  by (simp add: execute_def quality_loop.simps)

section \<open>Facts about one wave\<close>

lemma result_execute_workflow_step [simp]:
  "result (fst (execute_workflow_step send w p s)) = result s"
  by (simp add: execute_workflow_step_def Let_def split: reply.splits option.splits)

lemma dependencies_execute_workflow_step [simp]:
  "dependencies (fst (execute_workflow_step send w p s)) = dependencies s"
  by (simp add: execute_workflow_step_def Let_def split: reply.splits option.splits)

lemma error_execute_workflow_step_success:
  assumes "snd (execute_workflow_step send w p s) = Inr r"
  shows "error (fst (execute_workflow_step send w p s)) = error s"
proof (cases "send w p ''workflow_orchestrator'' (agent_name s) ''execute_task'' (task s)")
  case (Raises e)
  with assms show ?thesis by (simp add: execute_workflow_step_def Let_def)
next
  case (Raises_cancelled x)
  then show ?thesis by (simp add: execute_workflow_step_def Let_def)
next
  case (Returns resp)
  with assms show ?thesis
    by (cases resp) (auto simp: execute_workflow_step_def Let_def split: if_splits)
qed

lemma steps_fold_apply_control [simp]:
  "steps (fst (fold (apply_control wid) cs (w, lg))) = steps w"
proof (induction cs arbitrary: w lg)
  case Nil
  show ?case by simp
next
  case (Cons c cs)
  then show ?case by (cases c) simp_all
qed

lemma set_update_subset: "set (AList.update k v xs) \<subseteq> insert (k, v) (set xs)"
  by (induction xs) auto

lemma update_all:
  assumes "\<forall>(k, s) \<in> set xs. P s" and "P v"
  shows "\<forall>(k, s) \<in> set (AList.update key v xs). P s"
  using assms set_update_subset[of key v xs] by blast

lemma is_ready_empty: "is_ready {} s \<longleftrightarrow> dependencies s = []"
  by (cases "dependencies s") (simp_all add: is_ready_def)

section \<open>Consistency of result, error and status\<close>

lemma process_result_inv:
  assumes "state_inv st" and "result s1 = None"
    and "case res of Inl e \<Rightarrow> True | Inr r \<Rightarrow> error s1 = None"
  shows "state_inv (process_result ((k, s0), (s1, res)) st)"
proof (cases res)
  case (Inl e)
  let ?P = "\<lambda>s. consistent_step s \<and> (status s = COMPLETED \<longrightarrow> step_id s \<in> executed_steps st)"
  have "\<forall>(k, s) \<in> set (steps (workflow st)). ?P s"
    using assms(1) by (simp add: state_inv_def)
  moreover have "?P (s1\<lparr>status := FAILED, error := Some e\<rparr>)"
    using assms(2) by (simp add: consistent_step_def)
  ultimately have "\<forall>(k, s) \<in> set (AList.update k (s1\<lparr>status := FAILED, error := Some e\<rparr>)
      (steps (workflow st))). ?P s"
    by (rule update_all)
  with Inl show ?thesis
    by (simp add: state_inv_def process_result_def)
next
  case (Inr r)
  let ?P = "\<lambda>s. consistent_step s \<and>
     (status s = COMPLETED \<longrightarrow> step_id s \<in> insert (step_id s1) (executed_steps st))"
  have "\<forall>(k, s) \<in> set (steps (workflow st)). ?P s"
    using assms(1) by (auto simp: state_inv_def)
  moreover have "?P (s1\<lparr>status := COMPLETED, result := Some r\<rparr>)"
    using assms(3) Inr by (simp add: consistent_step_def)
  ultimately have "\<forall>(k, s) \<in> set (AList.update k (s1\<lparr>status := COMPLETED, result := Some r\<rparr>)
      (steps (workflow st))). ?P s"
    by (rule update_all)
  with Inr show ?thesis
    by (simp add: state_inv_def process_result_def)
qed

lemma fold_process_result_inv:
  assumes "\<forall>z \<in> set zs. result (fst (snd z)) = None \<and>
             (case snd (snd z) of Inl e \<Rightarrow> True | Inr r \<Rightarrow> error (fst (snd z)) = None)"
    and "state_inv st"
  shows "state_inv (fold process_result zs st)"
  using assms
proof (induction zs arbitrary: st)
  case Nil
  then show ?case by simp
next
  case (Cons z zs)
  obtain k s0 s1 res where z: "z = ((k, s0), (s1, res))"
    by (metis surj_pair)
  from Cons.prems(1) have r: "result s1 = None"
    and e: "case res of Inl e \<Rightarrow> True | Inr r \<Rightarrow> error s1 = None"
    by (auto simp: z split: sum.splits)
  have "state_inv (process_result z st)"
    unfolding z using Cons.prems(2) r e by (rule process_result_inv)
  with Cons show ?case by simp
qed

lemma ready_result_None:
  assumes "state_inv st" and "(k, s) \<in> set (steps (workflow st))"
    and "is_ready (executed_steps st) s"
  shows "result s = None"
  using assms by (auto simp: state_inv_def is_ready_def consistent_step_def)

lemma wave_body_inv:
  assumes "state_inv st" and "\<not> retry_succeeds send tot st"
    and "card (executed_steps st) < tot"
  shows "case wave_body send env st of Break st' \<Rightarrow> state_inv st' | Continue st' \<Rightarrow> state_inv st'"
proof -
  let ?ready = "filter (\<lambda>(k, step). is_ready (executed_steps st) step) (steps (workflow st))"
  let ?res = "map (\<lambda>(p, (k, step)). execute_workflow_step send (wave st) p step)
                  (enumerate 0 ?ready)"
  let ?req = "fold (apply_control (registry_key st)) (env (wave st))
                (workflow st,
                 emitted st @
                   map (\<lambda>(k, step). Executing_step (step_id step) (agent_name step)) ?ready)"
  let ?st1 = "st\<lparr>workflow := fst ?req, emitted := snd ?req\<rparr>"
  have inv1: "state_inv ?st1"
    using assms(1) by (simp add: state_inv_def)
  have settled: "\<forall>z \<in> set (zip ?ready ?res). result (fst (snd z)) = None \<and>
             (case snd (snd z) of Inl e \<Rightarrow> True | Inr r \<Rightarrow> error (fst (snd z)) = None)"
  proof
    fix z assume "z \<in> set (zip ?ready ?res)"
    then obtain i where i: "i < length ?ready" and z: "z = (?ready ! i, ?res ! i)"
      by (auto simp: set_zip)
    obtain k s where ks: "?ready ! i = (k, s)" by (cases "?ready ! i")
    from i have "?ready ! i \<in> set ?ready" by (rule nth_mem)
    with ks have mem: "(k, s) \<in> set (steps (workflow st))"
      and rdy: "is_ready (executed_steps st) s"
      by auto
    have res: "?res ! i = execute_workflow_step send (wave st) i s"
      using i ks by (simp add: nth_enumerate_eq)
    have none: "result (fst (execute_workflow_step send (wave st) i s)) = None"
      using ready_result_None[OF assms(1) mem rdy] by simp
    have err: "error (fst (execute_workflow_step send (wave st) i s)) = None"
      if ok: "snd (execute_workflow_step send (wave st) i s) = Inr r" for r
    proof (rule ccontr)
      assume "error (fst (execute_workflow_step send (wave st) i s)) \<noteq> None"
      with error_execute_workflow_step_success[OF ok] have e: "error s \<noteq> None" by simp
      from i ks have "(i, (k, s)) \<in> set (enumerate 0 ?ready)"
        by (simp add: in_set_enumerate_eq)
      with e ok assms(3) have "retry_succeeds send tot st"
        unfolding retry_succeeds_def list_ex_iff by force
      with assms(2) show False ..
    qed
    from none err z ks res show "result (fst (snd z)) = None \<and>
             (case snd (snd z) of Inl e \<Rightarrow> True | Inr r \<Rightarrow> error (fst (snd z)) = None)"
      by (simp split: sum.splits)
  qed
  have "state_inv (fold process_result (zip ?ready ?res) ?st1)"
    by (rule fold_process_result_inv[OF settled inv1])
  then have "state_inv ((fold process_result (zip ?ready ?res) ?st1)\<lparr>wave := Suc (wave st)\<rparr>)"
    by (simp add: state_inv_def)
  moreover have "state_inv (st\<lparr>emitted := x\<rparr>)" for x
    using assms(1) by (simp add: state_inv_def)
  ultimately show ?thesis
    by (simp add: wave_body_def Let_def)
qed

lemma after_waves_inv:
  assumes "state_inv st"
    and "list_all (\<lambda>k. \<not> retry_succeeds send tot (after_waves send env tot k st)) [0..<n]"
  shows "state_inv (after_waves send env tot n st)"
  using assms
proof (induction n arbitrary: st)
  case 0
  then show ?case by simp
next
  case (Suc n)
  from Suc.prems(2) have all: "\<And>k. k < Suc n \<Longrightarrow>
      \<not> retry_succeeds send tot (after_waves send env tot k st)"
    by (auto simp: list_all_iff less_Suc_eq)
  from all[of 0] have now: "\<not> retry_succeeds send tot st" by simp
  show ?case
  proof (cases "card (executed_steps st) < tot")
    case False
    with Suc.prems(1) show ?thesis by simp
  next
    case True
    note body = wave_body_inv[OF Suc.prems(1) now True, of env]
    show ?thesis
    proof (cases "wave_body send env st")
      case (Break st')
      with body True show ?thesis by simp
    next
      case (Continue st')
      with body have inv': "state_inv st'" by simp
      have "\<not> retry_succeeds send tot (after_waves send env tot k st')" if "k < n" for k
        using all[of "Suc k"] that True Continue by simp
      then have "list_all (\<lambda>k. \<not> retry_succeeds send tot (after_waves send env tot k st'))
                   [0..<n]"
        by (simp add: list_all_iff)
      from Suc.IH[OF inv' this] True Continue show ?thesis by simp
    qed
  qed
qed

lemma initial_state_inv:
  assumes "list_all (\<lambda>(k, s). freshly_constructed s) (steps workflow0)"
  shows "state_inv (initial_state wid lg workflow0)"
  using assms
  by (auto simp: state_inv_def initial_state_def list_all_iff consistent_step_def
        freshly_constructed_def)

text \<open>Whatever the loop returns is one of its wave boundaries.\<close>

lemma drive_after_waves:
  assumes "drive send env tot st = Some y"
  shows "\<exists>n. after_waves send env tot n st = y"
proof (rule drive.raw_induct[where P = "\<lambda>send env tot st y. \<exists>n. after_waves send env tot n st = y",
        OF _ assms])
  fix f :: "'a a2a \<Rightarrow> (nat \<Rightarrow> control list) \<Rightarrow> nat \<Rightarrow> 'a drive_state \<Rightarrow> 'a drive_state option"
  fix send env tot st y
  assume IH: "\<And>send env tot st y. f send env tot st = Some y \<Longrightarrow>
                \<exists>n. after_waves send env tot n st = y"
  assume eq: "(if card (executed_steps st) < tot
          then case wave_body send env st of Break st' \<Rightarrow> Some st'
               | Continue st' \<Rightarrow> f send env tot st'
          else Some st) = Some y"
  show "\<exists>n. after_waves send env tot n st = y"
  proof (cases "card (executed_steps st) < tot")
    case False
    with eq have "after_waves send env tot 0 st = y" by simp
    then show ?thesis ..
  next
    case True
    show ?thesis
    proof (cases "wave_body send env st")
      case (Break st')
      with True eq have "after_waves send env tot (Suc 0) st = y" by simp
      then show ?thesis ..
    next
      case (Continue st')
      with True eq have "f send env tot st' = Some y" by simp
      from IH[OF this] obtain n where "after_waves send env tot n st' = y" ..
      with True Continue have "after_waves send env tot (Suc n) st = y" by simp
      then show ?thesis ..
    qed
  qed
qed




text \<open>
  Two cases in which the condition on retries holds by itself: the first wave of any
  run, and every wave of a run on a bus where every call succeeds.
\<close>

lemma no_error_no_retry:
  assumes "list_all (\<lambda>(k, s). error s = None) (steps (workflow st))"
  shows "\<not> retry_succeeds send tot st"
proof
  let ?ready = "filter (\<lambda>(k, step). is_ready (executed_steps st) step) (steps (workflow st))"
  assume "retry_succeeds send tot st"
  then obtain p k s where "(p, (k, s)) \<in> set (enumerate 0 ?ready)" and e: "error s \<noteq> None"
    unfolding retry_succeeds_def list_ex_iff by auto
  then have "p < length ?ready" and "?ready ! p = (k, s)"
    by (simp_all add: in_set_enumerate_eq)
  then have "(k, s) \<in> set ?ready"
    by (metis nth_mem)
  then have "(k, s) \<in> set (steps (workflow st))" by simp
  with assms have "error s = None" by (auto simp: list_all_iff)
  with e show False ..
qed

lemma first_wave_boundary_consistent:
  assumes "list_all (\<lambda>(k, s). freshly_constructed s) (steps workflow0)"
  shows "list_all (\<lambda>(k, s). consistent_step s)
           (steps (workflow (after_waves send env tot 1 (initial_state wid lg workflow0))))"
proof -
  have "list_all (\<lambda>(k, s). error s = None) (steps (workflow (initial_state wid lg workflow0)))"
    using assms by (auto simp: initial_state_def list_all_iff freshly_constructed_def)
  then have "\<not> retry_succeeds send tot (initial_state wid lg workflow0)"
    by (rule no_error_no_retry)
  then have "list_all (\<lambda>k. \<not> retry_succeeds send tot
            (after_waves send env tot k (initial_state wid lg workflow0))) [0..<1]"
    by simp
  with initial_state_inv[OF assms]
  have "state_inv (after_waves send env tot 1 (initial_state wid lg workflow0))"
    by (rule after_waves_inv)
  then show ?thesis
    by (auto simp: state_inv_def list_all_iff)
qed

text \<open>The same for the workflow that \<open>execute_workflow\<close> leaves in the registry.\<close>

lemma execute_workflow_steps_consistent:
  assumes "active_workflows orch wid = Some workflow0"
    and "list_all (\<lambda>(k, s). freshly_constructed s) (steps workflow0)"
    and "\<And>k. \<not> retry_succeeds send (length (steps workflow0))
            (after_waves send env (length (steps workflow0)) k
               (initial_state wid (logger orch) workflow0))"
    and "execute_workflow send env wid orch = Some (orch', r)"
    and "active_workflows orch' wid = Some workflow1"
  shows "list_all (\<lambda>(k, s). consistent_step s) (steps workflow1)"
proof -
  let ?tot = "length (steps workflow0)"
  let ?init = "initial_state wid (logger orch) workflow0"
  from assms(1,4) obtain st where d: "drive send env ?tot ?init = Some st"
    by (auto simp: execute_workflow_def split: option.splits)
  from drive_after_waves[OF d] obtain n where n: "after_waves send env ?tot n ?init = st" ..
  have "list_all (\<lambda>k. \<not> retry_succeeds send ?tot (after_waves send env ?tot k ?init)) [0..<n]"
    using assms(3) by (simp add: list_all_iff)
  with initial_state_inv[OF assms(2)] have "state_inv (after_waves send env ?tot n ?init)"
    by (rule after_waves_inv)
  then have "state_inv st" by (simp only: n)
  moreover from assms(1,4,5) d have "steps workflow1 = steps (workflow st)"
    by (auto simp: execute_workflow_def Let_def split: if_splits)
  ultimately show ?thesis
    by (auto simp: state_inv_def list_all_iff)
qed

section \<open>Failed dispatches are retried without end\<close>

text \<open>
  A failed step is not added to \<open>executed_steps\<close>, so the next pass of the loop
  finds it ready again. On a bus where no call succeeds, a workflow with a step that
  has no dependencies is dispatched wave after wave and the loop never ends.
\<close>

lemma drive_diverges:
  assumes step: "\<And>st. I st \<Longrightarrow>
      card (executed_steps st) < tot \<and> (\<exists>st'. wave_body send env st = Continue st' \<and> I st')"
    and start: "I st"
  shows "drive send env tot st = None"
proof (rule ccontr)
  assume "drive send env tot st \<noteq> None"
  then obtain y where y: "drive send env tot st = Some y" by auto
  have "send = send \<and> env = env \<and> tot = tot \<longrightarrow> \<not> I st"
  proof (rule drive.raw_induct[where P = "\<lambda>send' env' tot' st y.
            send' = send \<and> env' = env \<and> tot' = tot \<longrightarrow> \<not> I st", OF _ y])
    fix f :: "'a a2a \<Rightarrow> (nat \<Rightarrow> control list) \<Rightarrow> nat \<Rightarrow> 'a drive_state \<Rightarrow> 'a drive_state option"
    fix send' env' tot' st y
    assume IH: "\<And>send' env' tot' st y. f send' env' tot' st = Some y \<Longrightarrow>
                  send' = send \<and> env' = env \<and> tot' = tot \<longrightarrow> \<not> I st"
    assume eq: "(if card (executed_steps st) < tot'
          then case wave_body send' env' st of Break st' \<Rightarrow> Some st'
               | Continue st' \<Rightarrow> f send' env' tot' st'
          else Some st) = Some y"
    show "send' = send \<and> env' = env \<and> tot' = tot \<longrightarrow> \<not> I st"
    proof (intro impI notI)
      assume same: "send' = send \<and> env' = env \<and> tot' = tot" and "I st"
      from step[OF \<open>I st\<close>] obtain st' where
        lt: "card (executed_steps st) < tot" and w: "wave_body send env st = Continue st'"
        and "I st'"
        by blast
      from eq same lt w have "f send env tot st' = Some y" by simp
      from IH[OF this] \<open>I st'\<close> show False by simp
    qed
  qed
  with start show False by simp
qed

lemma never_succeeds_Inl:
  assumes "never_succeeds send"
  shows "\<exists>e. snd (execute_workflow_step send w p s) = Inl e"
proof -
  let ?r = "send w p ''workflow_orchestrator'' (agent_name s) ''execute_task'' (task s)"
  from assms have "case ?r of Returns (Some r) \<Rightarrow> \<not> success r
                     | Raises_cancelled x \<Rightarrow> False | _ \<Rightarrow> True"
    unfolding never_succeeds_def by blast
  then show ?thesis
    by (cases ?r) (auto simp: execute_workflow_step_def Let_def split: option.splits)
qed

lemma process_result_blocked:
  assumes "blocked st" and "dependencies s1 = []"
  shows "blocked (process_result ((k, s0), (s1, Inl e)) st)"
proof -
  let ?v = "s1\<lparr>status := FAILED, error := Some e\<rparr>"
  have "map_of (AList.update k ?v (steps (workflow st))) k = Some ?v"
    by (simp add: update_conv')
  then have "(k, ?v) \<in> set (AList.update k ?v (steps (workflow st)))"
    by (rule map_of_SomeD)
  moreover have "dependencies ?v = []" using assms(2) by simp
  ultimately have "\<exists>(k, s) \<in> set (AList.update k ?v (steps (workflow st))). dependencies s = []"
    by blast
  with assms(1) show ?thesis
    by (simp add: blocked_def process_result_def)
qed

lemma fold_process_result_blocked:
  assumes "\<forall>z \<in> set zs. (\<exists>e. snd (snd z) = Inl e) \<and> dependencies (fst (snd z)) = []"
    and "blocked st"
  shows "blocked (fold process_result zs st)"
  using assms
proof (induction zs arbitrary: st)
  case Nil
  then show ?case by simp
next
  case (Cons z zs)
  from Cons.prems(1) obtain k s0 s1 e where
    z: "z = ((k, s0), (s1, Inl e))" and d: "dependencies s1 = []"
    by (cases z) fastforce
  have "blocked (process_result z st)"
    unfolding z using Cons.prems(2) d by (rule process_result_blocked)
  with Cons show ?case by simp
qed

lemma wave_body_blocked:
  assumes "never_succeeds send" and "blocked st"
  shows "\<exists>st'. wave_body send env st = Continue st' \<and> blocked st'"
proof -
  let ?ready = "filter (\<lambda>(k, step). is_ready (executed_steps st) step) (steps (workflow st))"
  let ?res = "map (\<lambda>(p, (k, step)). execute_workflow_step send (wave st) p step)
                  (enumerate 0 ?ready)"
  let ?req = "fold (apply_control (registry_key st)) (env (wave st))
                (workflow st,
                 emitted st @
                   map (\<lambda>(k, step). Executing_step (step_id step) (agent_name step)) ?ready)"
  let ?st1 = "st\<lparr>workflow := fst ?req, emitted := snd ?req\<rparr>"
  from assms(2) have ex: "executed_steps st = {}" by (simp add: blocked_def)
  from assms(2) have nonempty: "?ready \<noteq> []"
    by (auto simp: blocked_def filter_empty_conv is_ready_empty)
  have b1: "blocked ?st1"
    using assms(2) by (simp add: blocked_def)
  have all: "\<forall>z \<in> set (zip ?ready ?res).
               (\<exists>e. snd (snd z) = Inl e) \<and> dependencies (fst (snd z)) = []"
  proof
    fix z assume "z \<in> set (zip ?ready ?res)"
    then obtain i where i: "i < length ?ready" and z: "z = (?ready ! i, ?res ! i)"
      by (auto simp: set_zip)
    obtain k s where ks: "?ready ! i = (k, s)" by (cases "?ready ! i")
    from i have "?ready ! i \<in> set ?ready" by (rule nth_mem)
    with ks ex have "dependencies s = []" by (simp add: is_ready_empty)
    moreover have "?res ! i = execute_workflow_step send (wave st) i s"
      using i ks by (simp add: nth_enumerate_eq)
    ultimately show "(\<exists>e. snd (snd z) = Inl e) \<and> dependencies (fst (snd z)) = []"
      using z never_succeeds_Inl[OF assms(1)] by simp
  qed
  have "blocked (fold process_result (zip ?ready ?res) ?st1)"
    by (rule fold_process_result_blocked[OF all b1])
  then have "blocked ((fold process_result (zip ?ready ?res) ?st1)\<lparr>wave := Suc (wave st)\<rparr>)"
    by (simp add: blocked_def)
  with nonempty show ?thesis
    by (simp add: wave_body_def Let_def)
qed

lemma execute_workflow_diverges:
  assumes "never_succeeds send"
    and "active_workflows orch wid = Some workflow0"
    and "(k, s) \<in> set (steps workflow0)" and "dependencies s = []"
  shows "execute_workflow send env wid orch = None"
proof -
  have pos: "0 < length (steps workflow0)"
    using assms(3) by (cases "steps workflow0") auto
  have "blocked (initial_state wid (logger orch) workflow0)"
    using assms(3,4) by (auto simp: blocked_def initial_state_def)
  moreover have "card (executed_steps st) < length (steps workflow0) \<and>
        (\<exists>st'. wave_body send env st = Continue st' \<and> blocked st')" if "blocked st" for st
    using wave_body_blocked[OF assms(1) that] that pos by (simp add: blocked_def)
  ultimately have "drive send env (length (steps workflow0))
      (initial_state wid (logger orch) workflow0) = None"
    by (rule drive_diverges[where I = blocked, rotated])
  with assms(2) show ?thesis
    by (simp add: execute_workflow_def)
qed

lemma never_succeeds_always_times_out: "never_succeeds always_times_out"
  by (simp add: never_succeeds_def always_times_out_def failure_response_def)

text \<open>
  C1 fails on the code. The production workflow, created on an empty orchestrator and
  executed on a bus where every call times out, is a valid acyclic graph, and
  \<open>execute_workflow\<close> never returns on it: the three research steps are dispatched
  again in every wave.
\<close>

theorem production_workflow_never_returns:
  "execute_workflow always_times_out no_requests
     (snd (create_video_production_workflow 0 ''s1'' ''cats'' empty_orchestrator))
     (fst (create_video_production_workflow 0 ''s1'' ''cats'' empty_orchestrator)) = None"
proof -
  define orch where
    "orch = fst (create_video_production_workflow 0 ''s1'' ''cats'' empty_orchestrator)"
  define w0 :: "payload Workflow" where "w0 =
     \<lparr>workflow_id = ''workflow_s1'', session_id = ''s1'', topic = ''cats'',
      wf_status = PENDING, steps = create_production_steps ''cats'',
      created_at = 0, current_step = None, results = []\<rparr>"
  define root :: "payload WorkflowStep" where
    "root = new_step ''research_trends'' ''researcher_trends''
          [(''topic'', ''cats''), (''research_type'', ''trends'')] []"
  have reg: "active_workflows orch ''workflow_s1'' = Some w0"
    by (simp add: orch_def w0_def create_video_production_workflow_def Let_def)
  have mem: "(''research_trends'', root) \<in> set (steps w0)"
    by (simp add: w0_def root_def create_production_steps_def)
  have deps: "dependencies root = []"
    by (simp add: root_def new_step_def)
  have "execute_workflow always_times_out no_requests ''workflow_s1'' orch = None"
    by (rule execute_workflow_diverges[OF never_succeeds_always_times_out reg mem deps])
  then show ?thesis
    by (simp add: orch_def create_video_production_workflow_def Let_def)
qed

text \<open>
  For comparison: when every dispatch succeeds, the same workflow completes in five
  waves, the length of its longest dependency chain.
\<close>

lemma production_workflow_completes:
  "map_option (\<lambda>(orch, r). (map_option (\<lambda>w. (wf_status w, map (\<lambda>(k, s). (k, status s, started_at s)) (steps w)))
        (active_workflows orch ''workflow_s1''), map_sum id (map fst) r))
     (execute_workflow always_succeeds no_requests
       (snd (create_video_production_workflow 0 ''s1'' ''cats'' empty_orchestrator))
       (fst (create_video_production_workflow 0 ''s1'' ''cats'' empty_orchestrator))) =
   Some (Some (COMPLETED,
      [(''research_trends'', COMPLETED, Some 0),
       (''research_facts'', COMPLETED, Some 0),
       (''research_competition'', COMPLETED, Some 0),
       (''script_writing'', COMPLETED, Some 1),
       (''voiceover_production'', COMPLETED, Some 2),
       (''visual_production'', COMPLETED, Some 2),
       (''thumbnail_creation'', COMPLETED, Some 2),
       (''quality_validation'', COMPLETED, Some 3),
       (''final_assembly'', COMPLETED, Some 4)]),
     Inr [''research_trends'', ''research_facts'', ''research_competition'', ''script_writing'',
      ''voiceover_production'', ''visual_production'', ''thumbnail_creation'',
      ''quality_validation'', ''final_assembly''])"
  by (simp add: run_defs drive.simps create_video_production_workflow_def
        create_production_steps_def empty_orchestrator_def always_succeeds_def Let_def
        eval_nat_numeral)

section \<open>Leaving the loop with nothing ready\<close>

text \<open>
  C2 fails on the code. With two steps that wait for each other, the first pass finds
  no ready step, logs the pending ids and breaks; no step has status Failed, so the
  workflow is then marked Completed and an empty result is returned.
\<close>

theorem stuck_workflow_marked_completed:
  "execute_workflow always_succeeds no_requests ''w'' (registry_of cyclic_workflow) =
     Some (\<lparr>active_workflows = [''w'' \<mapsto> cyclic_workflow\<lparr>wf_status := COMPLETED\<rparr>],
            logger = [Starting_workflow_execution ''w'',
                      No_ready_steps_found [''a'', ''b''],
                      Workflow_completed_successfully ''w''],
            created_tasks = []\<rparr>,
           Inr [])
   \<and> map (\<lambda>(k, s). status s) (steps cyclic_workflow) = [PENDING, PENDING]"
  by (simp add: run_defs drive.simps cyclic_workflow_def)

section \<open>A failed dependency\<close>

text \<open>
  C3 fails on the code. Step \<open>a\<close> depends on step \<open>b\<close>. When the dispatch of
  \<open>b\<close> fails in the first wave and succeeds afterwards, \<open>b\<close> is dispatched again,
  then \<open>a\<close> runs and completes and the workflow ends Completed. When the dispatch
  of \<open>b\<close> fails every time, \<open>execute_workflow\<close> never returns.
\<close>

theorem dependent_runs_after_failed_dependency:
  "execute_workflow fails_first_wave no_requests ''w'' (registry_of chain_workflow) =
     Some (\<lparr>active_workflows = [''w'' \<mapsto>
               \<lparr>workflow_id = ''w'', session_id = ''s'', topic = ''t'', wf_status = COMPLETED,
                steps = [(''b'',
                  \<lparr>step_id = ''b'', agent_name = ''agent_b'', task = [], dependencies = [],
                   status = COMPLETED, result = Some [],
                   error = Some ''Agent execution failed: Response timeout'',
                   started_at = Some 1, completed_at = Some 1\<rparr>),
                  (''a'',
                  \<lparr>step_id = ''a'', agent_name = ''agent_a'', task = [], dependencies = [''b''],
                   status = COMPLETED, result = Some [], error = None,
                   started_at = Some 2, completed_at = Some 2\<rparr>)],
                created_at = 0, current_step = None,
                results = [(''b'', []), (''a'', [])]\<rparr>],
            logger = [Starting_workflow_execution ''w'',
                      Executing_step ''b'' ''agent_b'',
                      Step_failed ''b'' ''Agent execution failed: Response timeout'',
                      Step_completed_with_status ''b'' FAILED,
                      Executing_step ''b'' ''agent_b'',
                      Step_completed_with_status ''b'' COMPLETED,
                      Executing_step ''a'' ''agent_a'',
                      Step_completed_with_status ''a'' COMPLETED,
                      Workflow_completed_successfully ''w''],
            created_tasks = []\<rparr>,
           Inr [(''b'', []), (''a'', [])])
   \<and> execute_workflow always_times_out no_requests ''w'' (registry_of chain_workflow) = None"
proof -
  have reg: "active_workflows (registry_of chain_workflow) ''w'' = Some chain_workflow"
    by (simp add: registry_of_def chain_workflow_def workflow_of_def)
  have mem: "(''b'', new_step ''b'' ''agent_b'' [] []) \<in> set (steps chain_workflow)"
    by (simp add: chain_workflow_def workflow_of_def)
  have deps: "dependencies (new_step ''b'' ''agent_b'' ([]::payload) []) = []"
    by (simp add: new_step_def)
  show ?thesis
  proof (rule conjI)
    show "execute_workflow always_times_out no_requests ''w'' (registry_of chain_workflow) = None"
      by (rule execute_workflow_diverges[OF never_succeeds_always_times_out reg mem deps])
  qed (simp add: run_defs drive.simps chain_workflow_def fails_first_wave_def numeral_2_eq_2)
qed

section \<open>Pause and cancel requests during a run\<close>

text \<open>
  C8 fails on the code: the loop never reads the workflow's status. A cancel (or
  pause) request that arrives while the first wave is in flight leaves the status
  Cancelled (or Paused) at the wave boundary; the second wave is dispatched all the
  same (step \<open>a\<close> is started in wave 1 and completes), and at the end
  \<open>execute_workflow\<close> overwrites the status with Completed.
\<close>

theorem dispatch_ignores_pause_and_cancel:
  "wf_status (workflow (after_waves always_succeeds cancel_in_first_wave 2 1
      (initial_state ''w'' [] chain_workflow))) = CANCELLED
   \<and> map_of (steps (workflow (after_waves always_succeeds cancel_in_first_wave 2 2
      (initial_state ''w'' [] chain_workflow)))) ''a'' =
       Some \<lparr>step_id = ''a'', agent_name = ''agent_a'', task = [], dependencies = [''b''],
             status = COMPLETED, result = Some [], error = None,
             started_at = Some 1, completed_at = Some 1\<rparr>
   \<and> wf_status (workflow (after_waves always_succeeds pause_in_first_wave 2 1
      (initial_state ''w'' [] chain_workflow))) = PAUSED
   \<and> map_of (steps (workflow (after_waves always_succeeds pause_in_first_wave 2 2
      (initial_state ''w'' [] chain_workflow)))) ''a'' =
       Some \<lparr>step_id = ''a'', agent_name = ''agent_a'', task = [], dependencies = [''b''],
             status = COMPLETED, result = Some [], error = None,
             started_at = Some 1, completed_at = Some 1\<rparr>
   \<and> map_option (\<lambda>(orch, r). map_option wf_status (active_workflows orch ''w''))
       (execute_workflow always_succeeds cancel_in_first_wave ''w'' (registry_of chain_workflow))
       = Some (Some COMPLETED)"
  by (simp add: run_defs drive.simps chain_workflow_def always_succeeds_def
        cancel_in_first_wave_def pause_in_first_wave_def numeral_2_eq_2)

end
